theory Spec2Isabelle
  imports Complex_Main "HOL-Library.Multiset"
begin

section \<open>Data model (lib/models)\<close>

text \<open>
  A cell of a data frame, or a value of a transaction's \<open>dict()\<close>: a Python int, str or
  float. \<open>NaN\<close> is the marker \<open>np.nan\<close> that pandas writes into a cell it has no value
  for. Amounts and balances are carried around and never computed on, so a Python float is
  represented by the real number it denotes.
\<close>

datatype pyvalue = PyInt int | PyStr string | PyFloat real | NaN

text \<open>\<open>TransactionBase\<close> / \<open>Transaction\<close> (transaction_record_model.py): the nine shared fields.\<close>

record Transaction =
  time_ind :: int
  transac_type :: string
  amount :: real
  src_acc :: string
  src_bal :: real
  src_new_bal :: real
  dst_acc :: string
  dst_bal :: real
  dst_new_bal :: real

text \<open>
  A point in time (the value of a \<open>TIMESTAMP(timezone=True)\<close> column): instants are totally
  ordered, here counted in microseconds.
\<close>

type_synonym timestamp = int

text \<open>
  \<open>TransactionRecord\<close>, the ORM object: the shared fields plus \<open>id\<close> (default \<open>None\<close>),
  \<open>is_fraud\<close> (default \<open>False\<close>) and \<open>predicted_at\<close> (default \<open>None\<close>). The field \<open>id\<close> is
  named \<open>rec_id\<close> here, \<open>id\<close> being the identity function of HOL.
\<close>

record TransactionRecord = Transaction +
  rec_id :: "int option"
  is_fraud :: bool
  predicted_at :: "timestamp option"

text \<open>
  A row of the table \<open>predicted_transactions\<close> that \<open>TransactionRecord\<close> declares: the same
  columns, where \<open>id\<close> (primary key), \<open>is_fraud\<close> and \<open>predicted_at\<close> (\<open>nullable=False\<close>) hold
  no NULL.
\<close>

record predicted_transactions = Transaction +
  row_id :: int
  row_is_fraud :: bool
  row_predicted_at :: timestamp

text \<open>api_model.py\<close>

record TransactionAPIRequest =
  request_transaction :: Transaction

record TransactionAPIResponse =
  transaction :: Transaction
  predicted_fraud :: bool

text \<open>
  Every way a call can raise. \<open>ModelError\<close> is whatever \<open>model.predict\<close> raised,
  \<open>IndexError\<close> is \<open>prediction_array[0]\<close> on an empty result, \<open>ValueError\<close> is \<open>bool\<close> of
  an array of several elements, \<open>DBError\<close> is what the database driver raised (connection
  lost, timeout), \<open>IntegrityError\<close> is a primary-key violation, \<open>ValidationError\<close> is
  pydantic refusing a value.
\<close>

datatype error =
    ModelError string
  | IndexError
  | ValueError
  | DBError string
  | IntegrityError
  | ValidationError

section \<open>Feature projection (frauds_service.py, step 1 of predict)\<close>

text \<open>\<open>txn.dict()\<close>: the fields by name, in declaration order.\<close>

definition dict :: "Transaction \<Rightarrow> (string \<times> pyvalue) list" where
  "dict txn =
    [(''time_ind'', PyInt (time_ind txn)),
     (''transac_type'', PyStr (transac_type txn)),
     (''amount'', PyFloat (amount txn)),
     (''src_acc'', PyStr (src_acc txn)),
     (''src_bal'', PyFloat (src_bal txn)),
     (''src_new_bal'', PyFloat (src_new_bal txn)),
     (''dst_acc'', PyStr (dst_acc txn)),
     (''dst_bal'', PyFloat (dst_bal txn)),
     (''dst_new_bal'', PyFloat (dst_new_bal txn))]"

text \<open>\<open>getattr(txn, name)\<close>: a field read by its name; \<open>None\<close> when there is no such field.\<close>

definition getattr :: "Transaction \<Rightarrow> string \<Rightarrow> pyvalue option" where
  "getattr txn name =
    (if name = ''time_ind'' then Some (PyInt (time_ind txn))
     else if name = ''transac_type'' then Some (PyStr (transac_type txn))
     else if name = ''amount'' then Some (PyFloat (amount txn))
     else if name = ''src_acc'' then Some (PyStr (src_acc txn))
     else if name = ''src_bal'' then Some (PyFloat (src_bal txn))
     else if name = ''src_new_bal'' then Some (PyFloat (src_new_bal txn))
     else if name = ''dst_acc'' then Some (PyStr (dst_acc txn))
     else if name = ''dst_bal'' then Some (PyFloat (dst_bal txn))
     else if name = ''dst_new_bal'' then Some (PyFloat (dst_new_bal txn))
     else None)"

definition field_names :: "string list" where
  "field_names =
    [''time_ind'', ''transac_type'', ''amount'', ''src_acc'', ''src_bal'', ''src_new_bal'',
     ''dst_acc'', ''dst_bal'', ''dst_new_bal'']"

record DataFrame =
  columns :: "string list"
  data :: "pyvalue list list"

text \<open>
  \<open>pd.DataFrame(dicts, columns=cols)\<close> for a list of dicts: one row per dict, one cell per
  requested column, in the order of \<open>cols\<close>. A cell holds the dict's value under the
  column's name; where the dict has no such key the cell is \<open>NaN\<close>, and nothing is raised.
\<close>

definition pd_DataFrame :: "(string \<times> pyvalue) list list \<Rightarrow> string list \<Rightarrow> DataFrame" where
  "pd_DataFrame dicts cols =
    \<lparr>columns = cols,
     data = map (\<lambda>row. map (\<lambda>col. case map_of row col of Some v \<Rightarrow> v | None \<Rightarrow> NaN) cols) dicts\<rparr>"

section \<open>The repository (fraud_repository.py)\<close>

text \<open>
  The state behind the engine: the rows of \<open>predicted_transactions\<close> and the sequence that
  generates \<open>id\<close>.
\<close>

record FraudRepository =
  rows :: "predicted_transactions list"
  id_seq :: int

text \<open>
  What the database does during one \<open>with Session(self._engine)\<close> block, which the code
  does not control: the reading of \<open>NOW()\<close>; whether \<open>commit\<close> raises before the server has
  run its INSERT (\<open>flush_error\<close>: no connection) or after the server has run it
  (\<open>commit_error\<close>: the statement fails late, or the COMMIT does); whether \<open>refresh\<close> or
  \<open>exec\<close> raises; and where the engine keeps each row, which decides the order of a scan
  (and so the order among rows that \<open>ORDER BY\<close> leaves tied).
\<close>

record session =
  now :: timestamp
  flush_error :: "string option"
  commit_error :: "string option"
  refresh_error :: "string option"
  exec_error :: "string option"
  heap_pos :: "predicted_transactions \<Rightarrow> nat"

text \<open>The ORM object loaded from a row (what \<open>refresh\<close> and \<open>exec(...).all()\<close> build).\<close>

definition load :: "predicted_transactions \<Rightarrow> TransactionRecord" where
  "load row =
    Transaction.extend (Transaction.truncate row)
      (TransactionRecord.fields (Some (row_id row)) (row_is_fraud row) (Some (row_predicted_at row)))"

text \<open>
  The INSERT that \<open>commit\<close> flushes. An attribute that is \<open>None\<close> is left out of the
  statement, so the server fills the column: \<open>id\<close> from the sequence, \<open>predicted_at\<close> from
  \<open>NOW()\<close>. A value that is set is written as it is. A duplicate primary key is refused
  and leaves the rows as they were (a value taken from the sequence stays taken).
\<close>

definition insert_row ::
  "timestamp \<Rightarrow> TransactionRecord \<Rightarrow> FraudRepository \<Rightarrow> (error + predicted_transactions) \<times> FraudRepository" where
  "insert_row ts record db =
    (let new_id = (case rec_id record of None \<Rightarrow> id_seq db | Some i \<Rightarrow> i);
         db1 = (case rec_id record of None \<Rightarrow> db\<lparr>id_seq := id_seq db + 1\<rparr> | Some i \<Rightarrow> db);
         row = Transaction.extend (Transaction.truncate record)
                 (predicted_transactions.fields new_id (is_fraud record)
                    (case predicted_at record of None \<Rightarrow> ts | Some t \<Rightarrow> t))
     in if new_id \<in> set (map row_id (rows db)) then (Inl IntegrityError, db1)
        else (Inr row, db1\<lparr>rows := rows db @ [row]\<rparr>))"

text \<open>
  \<open>FraudRepository.add\<close>: \<open>session.add(record); session.commit(); session.refresh(record);
  return record\<close>. \<open>commit\<close> first sends the pending INSERT, then commits. When it raises
  before the server has run the INSERT, nothing has changed. When the INSERT is refused
  for its key, or \<open>commit\<close> raises after the server has run the INSERT, the row is rolled
  back: the rows are as they were, and the value the INSERT took from the sequence stays
  taken. A refresh that raises does so after the commit: the row is in the table.
\<close>

definition add ::
  "session \<Rightarrow> TransactionRecord \<Rightarrow> FraudRepository \<Rightarrow> (error + TransactionRecord) \<times> FraudRepository" where
  "add s record db =
    (case flush_error s of
       Some e \<Rightarrow> (Inl (DBError e), db)
     | None \<Rightarrow>
        (case insert_row (now s) record db of
           (Inl e, db') \<Rightarrow> (Inl e, db')
         | (Inr row, db') \<Rightarrow>
            (case commit_error s of
               Some e \<Rightarrow> (Inl (DBError e), db'\<lparr>rows := rows db\<rparr>)
             | None \<Rightarrow>
                (case refresh_error s of
                   Some e \<Rightarrow> (Inl (DBError e), db')
                 | None \<Rightarrow> (Inr (load row), db')))))"

text \<open>The rows as a scan of the table meets them: by where the engine keeps them.\<close>

definition scan :: "session \<Rightarrow> predicted_transactions list \<Rightarrow> predicted_transactions list" where
  "scan s rs = sort_key (heap_pos s) rs"

text \<open>\<open>ORDER BY predicted_at DESC\<close>: a stable sort of the scanned rows, latest first.\<close>

definition order_by_predicted_at_desc :: "predicted_transactions list \<Rightarrow> predicted_transactions list" where
  "order_by_predicted_at_desc rs = sort_key (\<lambda>r. - row_predicted_at r) rs"

text \<open>
  \<open>FraudRepository.list_all\<close>:
  \<open>select(TransactionRecord).order_by(TransactionRecord.predicted_at.desc())\<close>, then
  \<open>session.exec(stmt).all()\<close>. It is named \<open>list_all_repo\<close> here, \<open>list_all\<close> being a
  constant of HOL's lists.
\<close>

definition list_all_repo :: "session \<Rightarrow> FraudRepository \<Rightarrow> error + TransactionRecord list" where
  "list_all_repo s db =
    (case exec_error s of
       Some e \<Rightarrow> Inl (DBError e)
     | None \<Rightarrow> Inr (map load (order_by_predicted_at_desc (scan s (rows db)))))"

section \<open>The service (frauds_service.py)\<close>

text \<open>
  Element 0 of what the model returned: a scalar label, or itself an array (the model
  returned a two-dimensional result), given by its first element and the others. Labels
  are integers. An element that is an empty array is left out: what \<open>bool\<close> makes of it
  depends on the version of numpy.
\<close>

datatype label = Scalar int | Array int "int list"

text \<open>
  What \<open>model.predict(df)\<close> does: it raises, or it returns an array, of which the code
  reads element 0 and takes \<open>bool\<close>.
\<close>

datatype prediction = Raises string | Returns "label list"

text \<open>
  \<open>bool(x)\<close> for an element of the result: a scalar is true when it is not 0, an array of
  one element is as its element, and the truth value of an array of several elements is
  ambiguous: numpy raises \<open>ValueError\<close>.
\<close>

fun py_bool :: "label \<Rightarrow> error + bool" where
  "py_bool (Scalar x) = Inr (x \<noteq> 0)"
| "py_bool (Array x []) = Inr (x \<noteq> 0)"
| "py_bool (Array x (y # ys)) = Inl ValueError"

record FraudsService =
  model :: "DataFrame \<Rightarrow> prediction"
  feature_cols :: "string list"

text \<open>
  The state a call of the service works on: the repository, and the frames the model has
  been invoked on so far (a log kept only to count invocations).
\<close>

record world =
  repo :: FraudRepository
  calls :: "DataFrame list"

text \<open>\<open>TransactionRecord(**txn.dict(), is_fraud=predicted)\<close>: \<open>id\<close> and \<open>predicted_at\<close> stay \<open>None\<close>.\<close>

definition new_TransactionRecord :: "Transaction \<Rightarrow> bool \<Rightarrow> TransactionRecord" where
  "new_TransactionRecord txn predicted =
    Transaction.extend txn (TransactionRecord.fields None predicted None)"

text \<open>\<open>Transaction.from_orm(rec)\<close>: the nine shared fields of the record.\<close>

definition from_orm :: "TransactionRecord \<Rightarrow> Transaction" where
  "from_orm rec = Transaction.truncate rec"

text \<open>\<open>FraudsService.predict\<close> (logging left out).\<close>

definition predict ::
  "FraudsService \<Rightarrow> session \<Rightarrow> TransactionAPIRequest \<Rightarrow> world \<Rightarrow> (error + TransactionAPIResponse) \<times> world" where
  "predict svc s request w =
    (let txn = request_transaction request;
         df = pd_DataFrame [dict txn] (feature_cols svc);
         w1 = w\<lparr>calls := calls w @ [df]\<rparr>
     in case model svc df of
          Raises e \<Rightarrow> (Inl (ModelError e), w1)
        | Returns prediction_array \<Rightarrow>
           (case prediction_array of
              [] \<Rightarrow> (Inl IndexError, w1)
            | p # rest \<Rightarrow>
               (case py_bool p of
                  Inl e \<Rightarrow> (Inl e, w1)
                | Inr predicted \<Rightarrow>
                   (let db_rec = new_TransactionRecord txn predicted
                    in case add s db_rec (repo w1) of
                         (Inl e, db') \<Rightarrow> (Inl e, w1\<lparr>repo := db'\<rparr>)
                       | (Inr saved, db') \<Rightarrow>
                           (Inr \<lparr>transaction = txn, predicted_fraud = predicted\<rparr>,
                            w1\<lparr>repo := db'\<rparr>)))))"

text \<open>
  \<open>result[key] = value\<close> on a Python dict, which keeps its keys in insertion order: a key
  already there keeps its place and takes the new value, a new key goes last.
\<close>

fun dict_set :: "('k \<times> 'v) list \<Rightarrow> 'k \<Rightarrow> 'v \<Rightarrow> ('k \<times> 'v) list" where
  "dict_set [] k v = [(k, v)]"
| "dict_set ((k', v') # d) k v =
     (if k' = k then (k, v) # d else (k', v') # dict_set d k v)"

text \<open>
  \<open>TransactionsAPIResponse(transactions=result)\<close>: the field is a \<open>dict[int, ...]\<close>, so a key
  that is \<open>None\<close> is refused.
\<close>

fun int_keys :: "(int option \<times> 'v) list \<Rightarrow> (int \<times> 'v) list option" where
  "int_keys [] = Some []"
| "int_keys ((None, v) # d) = None"
| "int_keys ((Some k, v) # d) = map_option ((#) (k, v)) (int_keys d)"

definition TransactionsAPIResponse ::
  "(int option \<times> TransactionAPIResponse) list \<Rightarrow> error + (int \<times> TransactionAPIResponse) list" where
  "TransactionsAPIResponse result =
    (case int_keys result of None \<Rightarrow> Inl ValidationError | Some d \<Rightarrow> Inr d)"

text \<open>The loop of \<open>get_frauds\<close> over \<open>db_rows\<close>, from the dict built so far.\<close>

fun get_frauds_loop ::
  "TransactionRecord list \<Rightarrow> (int option \<times> TransactionAPIResponse) list \<Rightarrow>
   (int option \<times> TransactionAPIResponse) list" where
  "get_frauds_loop [] result = result"
| "get_frauds_loop (rec # db_rows) result =
     get_frauds_loop db_rows
       (dict_set result (rec_id rec) \<lparr>transaction = from_orm rec, predicted_fraud = is_fraud rec\<rparr>)"

text \<open>\<open>FraudsService.get_frauds\<close> (logging left out); it reads the repository and writes nothing.\<close>

definition get_frauds ::
  "session \<Rightarrow> world \<Rightarrow> error + (int \<times> TransactionAPIResponse) list" where
  "get_frauds s w =
    (case list_all_repo s (repo w) of
       Inl e \<Rightarrow> Inl e
     | Inr db_rows \<Rightarrow> TransactionsAPIResponse (get_frauds_loop db_rows []))"

section \<open>Scenarios and invariants used by the properties\<close>

text \<open>A client that makes one predict call after the other, each in its own session.\<close>

fun predicts ::
  "FraudsService \<Rightarrow> (session \<times> TransactionAPIRequest) list \<Rightarrow> world \<Rightarrow>
   (error + TransactionAPIResponse) list \<times> world" where
  "predicts svc [] w = ([], w)"
| "predicts svc ((s, request) # cs) w =
     (case predict svc s request w of
        (r, w1) \<Rightarrow> (case predicts svc cs w1 of (rs, w2) \<Rightarrow> (r # rs, w2)))"

text \<open>The primary-key constraint of the table: no two rows share an \<open>id\<close>.\<close>

definition primary_key_ok :: "FraudRepository \<Rightarrow> bool" where
  "primary_key_ok db = distinct (map row_id (rows db))"


text \<open>The entry of the listing that a row gives rise to.\<close>

definition entry :: "predicted_transactions \<Rightarrow> int \<times> TransactionAPIResponse" where
  "entry row =
    (row_id row, \<lparr>transaction = Transaction.truncate row, predicted_fraud = row_is_fraud row\<rparr>)"

text \<open>The transaction of the spec's scenario, a session in which nothing fails, a fresh world.\<close>

definition txn0 :: Transaction where
  "txn0 =
    \<lparr>time_ind = 42, transac_type = ''TRANSFER'', amount = 1234.56, src_acc = ''acc123'',
     src_bal = 5000, src_new_bal = 3765.44, dst_acc = ''acc456'', dst_bal = 1000,
     dst_new_bal = 2234.56\<rparr>"

definition session_ok :: "timestamp \<Rightarrow> session" where
  "session_ok t =
    \<lparr>now = t, flush_error = None, commit_error = None, refresh_error = None, exec_error = None,
     heap_pos = (\<lambda>r. 0)\<rparr>"

definition empty_world :: world where
  "empty_world = \<lparr>repo = \<lparr>rows = [], id_seq = 1\<rparr>, calls = []\<rparr>"

text \<open>A service whose model answers every frame with the given scalar labels.\<close>

definition service_answering :: "int list \<Rightarrow> string list \<Rightarrow> FraudsService" where
  "service_answering labels cols =
    \<lparr>model = (\<lambda>df. Returns (map Scalar labels)), feature_cols = cols\<rparr>"

text \<open>The row of the scenario's transaction stored under an id, with a label and a time.\<close>

definition stored :: "int \<Rightarrow> bool \<Rightarrow> timestamp \<Rightarrow> predicted_transactions" where
  "stored i b t = Transaction.extend txn0 (predicted_transactions.fields i b t)"

text \<open>A session in which nothing fails and the engine keeps the row of id 1 behind the others.\<close>

definition session_other_scan :: session where
  "session_other_scan = (session_ok 0)\<lparr>heap_pos := (\<lambda>r. if row_id r = 1 then 1 else 0)\<rparr>"

section \<open>Feature projection: properties\<close>

lemma map_of_dict: "map_of (dict txn) name = getattr txn name"
  by (simp add: dict_def getattr_def)

lemma distinct_dict_keys: "distinct (map fst (dict txn))"
  by (simp add: dict_def)

lemma map_of_reordered:
  assumes "mset d = mset (dict txn)"
  shows "map_of d = getattr txn"
proof -
  have s: "set d = set (dict txn)" using assms by (rule mset_eq_setD)
  have "mset (map fst d) = mset (map fst (dict txn))" using assms by (metis mset_map)
  then have "distinct (map fst d)"
    using distinct_dict_keys mset_eq_imp_distinct_iff by blast
  then have "map_of d = map_of (dict txn)"
    using s distinct_dict_keys by (simp add: map_of_inject_set)
  then show ?thesis by (simp add: map_of_dict fun_eq_iff)
qed

lemma getattr_field: "name \<in> set field_names \<Longrightarrow> getattr txn name \<noteq> None"
  by (auto simp: field_names_def getattr_def)

lemma getattr_no_field: "name \<notin> set field_names \<Longrightarrow> getattr txn name = None"
  by (simp add: field_names_def getattr_def)

text \<open>
  C8. When every requested column is a field of the transaction, the frame built for the
  model has the requested columns and one row, and the cell of each column is the value
  of the transaction's field of that name, in the order of the column list. The frame is the
  same whatever the order in which the transaction's fields are enumerated (\<open>d\<close> is any
  reordering of \<open>txn.dict()\<close>).
\<close>

theorem projection_by_name:
  assumes "set cols \<subseteq> set field_names" and "mset d = mset (dict txn)"
  shows "columns (pd_DataFrame [d] cols) = cols \<and>
         (\<exists>row. data (pd_DataFrame [d] cols) = [row] \<and> map Some row = map (getattr txn) cols) \<and>
         pd_DataFrame [d] cols = pd_DataFrame [dict txn] cols"
proof -
  have "(case getattr txn c of Some v \<Rightarrow> Some v | None \<Rightarrow> Some NaN) = getattr txn c"
    if "c \<in> set cols" for c
    using that assms(1) getattr_field[of c txn] by (auto split: option.splits)
  then have "map Some (map (\<lambda>col. case getattr txn col of Some v \<Rightarrow> v | None \<Rightarrow> NaN) cols) =
      map (getattr txn) cols"
    by (auto simp: option.case_distrib[of Some])
  then show ?thesis
    by (simp add: pd_DataFrame_def map_of_reordered[OF assms(2)] map_of_dict)
qed

theorem projection_by_name_witness:
  "set [''amount'', ''time_ind''] \<subseteq> set field_names \<and>
   mset (rev (dict txn0)) = mset (dict txn0) \<and>
   data (pd_DataFrame [rev (dict txn0)] [''amount'', ''time_ind'']) = [[PyFloat 1234.56, PyInt 42]]"
proof -
  have a: "set [''amount'', ''time_ind''] \<subseteq> set field_names" by (simp add: field_names_def)
  have b: "mset (rev (dict txn0)) = mset (dict txn0)" by simp
  from projection_by_name[OF a b] a b show ?thesis
    by (auto simp: getattr_def txn0_def)
qed

section \<open>Records, insert and predict: basic facts\<close>

lemmas rec_defs = Transaction.defs TransactionRecord.defs predicted_transactions.defs

lemma from_orm_new [simp]: "from_orm (new_TransactionRecord txn b) = txn"
  by (simp add: from_orm_def new_TransactionRecord_def rec_defs)

lemma new_record_fields [simp]:
  "rec_id (new_TransactionRecord txn b) = None"
  "predicted_at (new_TransactionRecord txn b) = None"
  "is_fraud (new_TransactionRecord txn b) = b"
  by (simp_all add: new_TransactionRecord_def rec_defs)

lemma truncate_new [simp]: "Transaction.truncate (new_TransactionRecord txn b) = txn"
  by (simp add: new_TransactionRecord_def rec_defs)

lemma load_fields [simp]:
  "rec_id (load row) = Some (row_id row)"
  "predicted_at (load row) = Some (row_predicted_at row)"
  "is_fraud (load row) = row_is_fraud row"
  "from_orm (load row) = Transaction.truncate row"
  "Transaction.truncate (load row) = Transaction.truncate row"
  by (simp_all add: load_def from_orm_def rec_defs)

lemma insert_row_new:
  "insert_row ts (new_TransactionRecord txn b) db =
     (if id_seq db \<in> set (map row_id (rows db))
      then (Inl IntegrityError, db\<lparr>id_seq := id_seq db + 1\<rparr>)
      else (Inr (Transaction.extend txn (predicted_transactions.fields (id_seq db) b ts)),
            db\<lparr>id_seq := id_seq db + 1, rows := rows db @ [Transaction.extend txn (predicted_transactions.fields (id_seq db) b ts)]\<rparr>))"
  by (simp add: insert_row_def Let_def)

lemma new_row_fields [simp]:
  "row_id (Transaction.extend txn (predicted_transactions.fields i b ts)) = i"
  "row_is_fraud (Transaction.extend txn (predicted_transactions.fields i b ts)) = b"
  "row_predicted_at (Transaction.extend txn (predicted_transactions.fields i b ts)) = ts"
  "Transaction.truncate (Transaction.extend txn (predicted_transactions.fields i b ts)) = txn"
  by (simp_all add: rec_defs)

text \<open>What \<open>add\<close> does with a record that predict built, case by case.\<close>

lemma add_new_cases:
  "add s (new_TransactionRecord txn b) db =
    (case flush_error s of
       Some x \<Rightarrow> (Inl (DBError x), db)
     | None \<Rightarrow>
        if id_seq db \<in> set (map row_id (rows db)) then (Inl IntegrityError, db\<lparr>id_seq := id_seq db + 1\<rparr>)
        else (case commit_error s of
                Some x \<Rightarrow> (Inl (DBError x), db\<lparr>id_seq := id_seq db + 1\<rparr>)
              | None \<Rightarrow>
                 (case refresh_error s of
                    Some x \<Rightarrow> Inl (DBError x)
                  | None \<Rightarrow> Inr (load (Transaction.extend txn (predicted_transactions.fields (id_seq db) b (now s)))),
                  db\<lparr>id_seq := id_seq db + 1,
                     rows := rows db @ [Transaction.extend txn (predicted_transactions.fields (id_seq db) b (now s))]\<rparr>)))"
  by (simp add: add_def insert_row_new split: option.splits)

lemma add_new_success:
  assumes "add s (new_TransactionRecord txn b) db = (Inr saved, db')"
  shows "\<exists>row. rows db' = rows db @ [row] \<and> saved = load row \<and> row_id row = id_seq db \<and>
           row_predicted_at row = now s \<and> row_is_fraud row = b \<and> Transaction.truncate row = txn \<and>
           id_seq db \<notin> set (map row_id (rows db)) \<and> flush_error s = None \<and>
           commit_error s = None \<and> refresh_error s = None"
  using assms
  by (auto simp: add_new_cases split: option.splits if_splits)

text \<open>predict once the model has returned a result whose element 0 has a truth value.\<close>

lemma predict_label:
  assumes "model svc (pd_DataFrame [dict (request_transaction request)] (feature_cols svc)) = Returns (p # rest)"
    and "py_bool p = Inr predicted"
    and "add s (new_TransactionRecord (request_transaction request) predicted) (repo w) = (r, db')"
  shows "predict svc s request w =
    (case r of Inl e \<Rightarrow> Inl e
             | Inr saved \<Rightarrow> Inr \<lparr>transaction = request_transaction request, predicted_fraud = predicted\<rparr>,
     w\<lparr>calls := calls w @ [pd_DataFrame [dict (request_transaction request)] (feature_cols svc)],
       repo := db'\<rparr>)"
  using assms by (cases r) (simp_all add: predict_def Let_def)

text \<open>predict when the inference step fails: nothing but the log of invocations changes.\<close>

lemma predict_no_label:
  assumes "model svc (pd_DataFrame [dict (request_transaction request)] (feature_cols svc)) = Raises x \<and> e = ModelError x \<or>
           model svc (pd_DataFrame [dict (request_transaction request)] (feature_cols svc)) = Returns [] \<and> e = IndexError \<or>
           (\<exists>p rest. model svc (pd_DataFrame [dict (request_transaction request)] (feature_cols svc)) = Returns (p # rest) \<and>
              py_bool p = Inl e)"
  shows "predict svc s request w =
    (Inl e, w\<lparr>calls := calls w @ [pd_DataFrame [dict (request_transaction request)] (feature_cols svc)]\<rparr>)"
  using assms by (auto simp: predict_def Let_def)

text \<open>The inference step has one of four outcomes.\<close>

lemma inference_outcomes:
  obtains (raises) x where "m = Raises x"
  | (empty) "m = Returns []"
  | (no_truth) p rest e where "m = Returns (p # rest)" "py_bool p = Inl e"
  | (label) p rest predicted where "m = Returns (p # rest)" "py_bool p = Inr predicted"
proof (cases m)
  case (Raises x)
  then show ?thesis using raises by blast
next
  case (Returns prediction_array)
  show ?thesis
  proof (cases prediction_array)
    case Nil
    then show ?thesis using Returns empty by blast
  next
    case (Cons p rest)
    then show ?thesis using Returns no_truth label by (cases "py_bool p") blast+
  qed
qed

lemma predict_success:
  assumes "predict svc s request w = (Inr response, w')"
  shows "\<exists>p rest predicted saved.
      model svc (pd_DataFrame [dict (request_transaction request)] (feature_cols svc)) = Returns (p # rest) \<and>
      py_bool p = Inr predicted \<and>
      add s (new_TransactionRecord (request_transaction request) predicted) (repo w) = (Inr saved, repo w') \<and>
      response = \<lparr>transaction = request_transaction request, predicted_fraud = predicted\<rparr> \<and>
      calls w' = calls w @ [pd_DataFrame [dict (request_transaction request)] (feature_cols svc)]"
proof (cases "model svc (pd_DataFrame [dict (request_transaction request)] (feature_cols svc))"
    rule: inference_outcomes)
  case (raises x)
  then show ?thesis using assms predict_no_label[of svc request x "ModelError x" s w] by simp
next
  case empty
  then show ?thesis using assms predict_no_label[of svc request "[]" IndexError s w] by simp
next
  case (no_truth p rest e)
  then have "predict svc s request w =
    (Inl e, w\<lparr>calls := calls w @ [pd_DataFrame [dict (request_transaction request)] (feature_cols svc)]\<rparr>)"
    by (intro predict_no_label) blast
  then show ?thesis using assms by simp
next
  case (label p rest predicted)
  obtain r db' where a: "add s (new_TransactionRecord (request_transaction request) predicted) (repo w) = (r, db')"
    by (cases "add s (new_TransactionRecord (request_transaction request) predicted) (repo w)")
  from predict_label[OF label a] assms
  have "r = Inr (projr r)" "repo w' = db'"
    "response = \<lparr>transaction = request_transaction request, predicted_fraud = predicted\<rparr>"
    "calls w' = calls w @ [pd_DataFrame [dict (request_transaction request)] (feature_cols svc)]"
    by (cases r; auto)+
  then show ?thesis using label a by metis
qed

section \<open>Ordering of the listing: basic facts\<close>

lemma mset_order_by [simp]: "mset (order_by_predicted_at_desc rs) = mset rs"
  by (simp add: order_by_predicted_at_desc_def)

lemma mset_scan [simp]: "mset (scan s rs) = mset rs"
  by (simp add: scan_def)

lemma sorted_order_by:
  "sorted_wrt (\<lambda>a b. row_predicted_at b \<le> row_predicted_at a) (order_by_predicted_at_desc rs)"
proof -
  have "sorted (map (\<lambda>r. - row_predicted_at r) (order_by_predicted_at_desc rs))"
    by (simp add: order_by_predicted_at_desc_def)
  then show ?thesis by (simp add: sorted_map)
qed

lemma desc_sorted_unique:
  assumes "sorted_wrt (\<lambda>a b. row_predicted_at b \<le> row_predicted_at a) xs"
    and "sorted_wrt (\<lambda>a b. row_predicted_at b < row_predicted_at a) ys"
    and "mset xs = mset ys"
  shows "xs = ys"
proof -
  let ?f = "\<lambda>r. - row_predicted_at r"
  have sy: "sorted_wrt (<) (map ?f ys)" using assms(2) by (simp add: sorted_wrt_map)
  have dy: "distinct (map ?f ys)" using sy strict_sorted_iff by blast
  have oy: "sorted (map ?f ys)" using sy strict_sorted_iff by blast
  have "mset (map ?f xs) = mset (map ?f ys)" using assms(3) by simp
  then have dx: "distinct (map ?f xs)" using dy mset_eq_imp_distinct_iff by blast
  have ox: "sorted (map ?f xs)" using assms(1) by (simp add: sorted_map)
  have inj: "inj_on ?f (set xs \<union> set ys)"
    using dy assms(3) by (metis distinct_map mset_eq_setD sup.idem)
  have "set xs = set ys" using assms(3) by (rule mset_eq_setD)
  with inj ox dx oy dy show ?thesis by (rule map_sorted_distinct_set_unique)
qed

section \<open>The listing as a dict: basic facts\<close>

lemma dict_set_fresh: "k \<notin> fst ` set d \<Longrightarrow> dict_set d k v = d @ [(k, v)]"
  by (induction d) auto

lemma get_frauds_loop_distinct:
  "distinct (map rec_id recs) \<Longrightarrow> fst ` set acc \<inter> set (map rec_id recs) = {} \<Longrightarrow>
   get_frauds_loop recs acc =
     acc @ map (\<lambda>rec. (rec_id rec, \<lparr>transaction = from_orm rec, predicted_fraud = is_fraud rec\<rparr>)) recs"
proof (induction recs arbitrary: acc)
  case Nil
  then show ?case by simp
next
  case (Cons rec recs)
  let ?e = "(rec_id rec, \<lparr>transaction = from_orm rec, predicted_fraud = is_fraud rec\<rparr>)"
  have fresh: "rec_id rec \<notin> fst ` set acc" using Cons.prems(2) by auto
  have d: "distinct (map rec_id recs)" using Cons.prems(1) by simp
  have "fst ` set (acc @ [?e]) \<inter> set (map rec_id recs) = {}"
    using Cons.prems by auto
  from Cons.IH[OF d this] show ?case
    by (simp add: dict_set_fresh[OF fresh])
qed

lemma int_keys_Some:
  "int_keys (map (\<lambda>r. (Some (f r), g r)) rs) = Some (map (\<lambda>r. (f r, g r)) rs)"
  by (induction rs) auto

lemma get_frauds_entries:
  assumes "primary_key_ok (repo w)" and "exec_error s = None"
  shows "get_frauds s w = Inr (map entry (order_by_predicted_at_desc (scan s (rows (repo w)))))"
proof -
  let ?rs = "order_by_predicted_at_desc (scan s (rows (repo w)))"
  have "mset (map row_id ?rs) = mset (map row_id (rows (repo w)))" by simp
  then have "distinct (map row_id ?rs)"
    using assms(1) unfolding primary_key_ok_def by (metis mset_eq_imp_distinct_iff)
  then have "distinct (map rec_id (map load ?rs))"
    by (simp add: distinct_map comp_def inj_on_def)
  then have "get_frauds_loop (map load ?rs) [] =
      map (\<lambda>rec. (rec_id rec, \<lparr>transaction = from_orm rec, predicted_fraud = is_fraud rec\<rparr>)) (map load ?rs)"
    using get_frauds_loop_distinct[of "map load ?rs" "[]"] by simp
  also have "\<dots> = map (\<lambda>r. (Some (row_id r), snd (entry r))) ?rs"
    by (simp add: entry_def)
  finally have "int_keys (get_frauds_loop (map load ?rs) []) = Some (map entry ?rs)"
    by (simp add: int_keys_Some entry_def)
  then show ?thesis
    using assms(2) by (simp add: get_frauds_def list_all_repo_def TransactionsAPIResponse_def)
qed

lemma get_frauds_Inr_exec: "get_frauds s w = Inr d \<Longrightarrow> exec_error s = None"
  by (auto simp: get_frauds_def list_all_repo_def split: option.splits)

section \<open>The primary key is kept by every call\<close>

lemma insert_row_primary_key:
  assumes "primary_key_ok db" and "insert_row ts record db = (r, db')"
  shows "primary_key_ok db'"
proof (cases "(case rec_id record of None \<Rightarrow> id_seq db | Some i \<Rightarrow> i) \<in> set (map row_id (rows db))")
  case True
  then have "rows db' = rows db"
    using assms(2) by (cases "rec_id record") (auto simp: insert_row_def Let_def)
  then show ?thesis using assms(1) by (simp add: primary_key_ok_def)
next
  case False
  then have "\<exists>row. rows db' = rows db @ [row] \<and> row_id row \<notin> set (map row_id (rows db))"
    using assms(2) by (cases "rec_id record") (auto simp: insert_row_def Let_def rec_defs)
  then show ?thesis using assms(1) by (auto simp: primary_key_ok_def)
qed

lemma add_primary_key:
  assumes "primary_key_ok db" and "add s record db = (r, db')"
  shows "primary_key_ok db'"
proof (cases "flush_error s")
  case (Some e)
  then show ?thesis using assms by (simp add: add_def)
next
  case None
  obtain r1 db1 where i: "insert_row (now s) record db = (r1, db1)"
    by (cases "insert_row (now s) record db")
  have pk1: "primary_key_ok db1" using insert_row_primary_key[OF assms(1) i] .
  have "db' = db1 \<or> db' = db1\<lparr>rows := rows db\<rparr>"
    using assms(2) None i
    by (cases r1; cases "commit_error s"; cases "refresh_error s") (simp_all add: add_def)
  then show ?thesis using pk1 assms(1) by (auto simp: primary_key_ok_def)
qed

lemma predict_repo:
  assumes "predict svc s request w = (r, w')"
  shows "repo w' = repo w \<or> (\<exists>record r'. add s record (repo w) = (r', repo w'))"
proof (cases "model svc (pd_DataFrame [dict (request_transaction request)] (feature_cols svc))"
    rule: inference_outcomes)
  case (raises x)
  then have "repo (snd (predict svc s request w)) = repo w"
    using predict_no_label[of svc request x "ModelError x" s w] by simp
  then show ?thesis by (simp add: assms)
next
  case empty
  then have "repo (snd (predict svc s request w)) = repo w"
    using predict_no_label[of svc request "[]" IndexError s w] by simp
  then show ?thesis by (simp add: assms)
next
  case (no_truth p rest e)
  then have "predict svc s request w =
    (Inl e, w\<lparr>calls := calls w @ [pd_DataFrame [dict (request_transaction request)] (feature_cols svc)]\<rparr>)"
    by (intro predict_no_label) blast
  then have "repo (snd (predict svc s request w)) = repo w" by simp
  then show ?thesis by (simp add: assms)
next
  case (label p rest predicted)
  obtain r' db' where a: "add s (new_TransactionRecord (request_transaction request) predicted) (repo w) = (r', db')"
    by (cases "add s (new_TransactionRecord (request_transaction request) predicted) (repo w)")
  from predict_label[OF label a] have "repo (snd (predict svc s request w)) = db'" by simp
  then have "repo w' = db'" by (simp add: assms)
  then show ?thesis using a by blast
qed

lemma predict_primary_key:
  "primary_key_ok (repo w) \<Longrightarrow> predict svc s request w = (r, w') \<Longrightarrow> primary_key_ok (repo w')"
  using predict_repo add_primary_key by metis

lemma predict_success_row:
  assumes "predict svc s request w = (Inr response, w')"
  shows "\<exists>row. rows (repo w') = rows (repo w) @ [row]"
proof -
  obtain predicted saved where
    a: "add s (new_TransactionRecord (request_transaction request) predicted) (repo w) = (Inr saved, repo w')"
    using predict_success[OF assms] by blast
  show ?thesis using add_new_success[OF a] by blast
qed

lemma predicts_rows:
  "primary_key_ok (repo w) \<Longrightarrow> predicts svc cs w = (rs, w') \<Longrightarrow>
   \<forall>r \<in> set rs. \<exists>response. r = Inr response \<Longrightarrow>
   primary_key_ok (repo w') \<and> length (rows (repo w')) = length (rows (repo w)) + length cs"
proof (induction cs arbitrary: w rs)
  case Nil
  then show ?case by simp
next
  case (Cons c cs)
  obtain s request where c: "c = (s, request)" by (cases c)
  obtain r w1 where p: "predict svc s request w = (r, w1)" by (cases "predict svc s request w")
  obtain rs1 w2 where q: "predicts svc cs w1 = (rs1, w2)" by (cases "predicts svc cs w1")
  have "predicts svc (c # cs) w = (r # rs1, w2)" using c p q by simp
  then have rs: "rs = r # rs1" and w2: "w2 = w'" using Cons.prems(2) by simp_all
  obtain response where r: "r = Inr response" using Cons.prems(3) rs by auto
  have pk1: "primary_key_ok (repo w1)" using predict_primary_key[OF Cons.prems(1) p] .
  obtain row where "rows (repo w1) = rows (repo w) @ [row]"
    using predict_success_row[OF p[unfolded r]] by blast
  then have len: "length (rows (repo w1)) = length (rows (repo w)) + 1" by simp
  have ok: "\<forall>r \<in> set rs1. \<exists>response. r = Inr response" using Cons.prems(3) rs by simp
  from Cons.IH[OF pk1 q[unfolded w2] ok] len show ?case by simp
qed

section \<open>predict: the successful call\<close>

lemma predict_ok:
  assumes m: "model svc (pd_DataFrame [dict (request_transaction request)] (feature_cols svc)) = Returns (p # rest)"
    and b: "py_bool p = Inr predicted"
    and f: "flush_error s = None" and c: "commit_error s = None" and r: "refresh_error s = None"
    and fresh: "id_seq (repo w) \<notin> set (map row_id (rows (repo w)))"
  shows "predict svc s request w =
    (Inr \<lparr>transaction = request_transaction request, predicted_fraud = predicted\<rparr>,
     w\<lparr>calls := calls w @ [pd_DataFrame [dict (request_transaction request)] (feature_cols svc)],
       repo := (repo w)\<lparr>id_seq := id_seq (repo w) + 1,
         rows := rows (repo w) @
           [Transaction.extend (request_transaction request)
              (predicted_transactions.fields (id_seq (repo w)) predicted (now s))]\<rparr>\<rparr>)"
proof -
  let ?row = "Transaction.extend (request_transaction request)
              (predicted_transactions.fields (id_seq (repo w)) predicted (now s))"
  have a: "add s (new_TransactionRecord (request_transaction request) predicted) (repo w) =
      (Inr (load ?row), (repo w)\<lparr>id_seq := id_seq (repo w) + 1, rows := rows (repo w) @ [?row]\<rparr>)"
    using f c r fresh by (simp add: add_new_cases)
  from predict_label[OF m b a] show ?thesis by simp
qed

lemma scenario_predict:
  "predict (service_answering (p # rest) cols) (session_ok t) \<lparr>request_transaction = txn\<rparr> empty_world =
    (Inr \<lparr>transaction = txn, predicted_fraud = (p \<noteq> 0)\<rparr>,
     \<lparr>repo = \<lparr>rows = [Transaction.extend txn (predicted_transactions.fields 1 (p \<noteq> 0) t)], id_seq = 2\<rparr>,
      calls = [pd_DataFrame [dict txn] cols]\<rparr>)"
proof -
  let ?svc = "service_answering (p # rest) cols"
  let ?req = "\<lparr>request_transaction = txn\<rparr>"
  have m: "model ?svc (pd_DataFrame [dict (request_transaction ?req)] (feature_cols ?svc)) =
      Returns (Scalar p # map Scalar rest)"
    by (simp add: service_answering_def)
  have b: "py_bool (Scalar p) = Inr (p \<noteq> 0)" by simp
  have e: "flush_error (session_ok t) = None" "commit_error (session_ok t) = None"
    "refresh_error (session_ok t) = None"
    by (simp_all add: session_ok_def)
  have f: "id_seq (repo empty_world) \<notin> set (map row_id (rows (repo empty_world)))"
    by (simp add: empty_world_def)
  from predict_ok[OF m b e f] show ?thesis
    by (simp add: service_answering_def session_ok_def empty_world_def)
qed

lemma predict_calls:
  "calls (snd (predict svc s request w)) =
     calls w @ [pd_DataFrame [dict (request_transaction request)] (feature_cols svc)]"
proof (cases "model svc (pd_DataFrame [dict (request_transaction request)] (feature_cols svc))"
    rule: inference_outcomes)
  case (raises x)
  then show ?thesis using predict_no_label[of svc request x "ModelError x" s w] by simp
next
  case empty
  then show ?thesis using predict_no_label[of svc request "[]" IndexError s w] by simp
next
  case (no_truth p rest e)
  then have "predict svc s request w =
    (Inl e, w\<lparr>calls := calls w @ [pd_DataFrame [dict (request_transaction request)] (feature_cols svc)]\<rparr>)"
    by (intro predict_no_label) blast
  then show ?thesis by simp
next
  case (label p rest predicted)
  obtain r' db' where a: "add s (new_TransactionRecord (request_transaction request) predicted) (repo w) = (r', db')"
    by (cases "add s (new_TransactionRecord (request_transaction request) predicted) (repo w)")
  from predict_label[OF label a] show ?thesis by simp
qed



section \<open>The store generates id and predicted_at\<close>

text \<open>
  C5. The record that predict hands to the store is built from the request's transaction
  and the label only, so its \<open>id\<close> and \<open>predicted_at\<close> are \<open>None\<close>: a client has no way to
  supply them. When \<open>add\<close> succeeds on such a record, the store has appended one row whose
  \<open>id\<close> is the value of the sequence and whose \<open>predicted_at\<close> is the reading of \<open>NOW()\<close>,
  and the record that \<open>add\<close> returns is that row as loaded back: both generated values
  are on it. Through predict, the row added by a successful call carries these values
  whatever the request was.
\<close>

theorem store_generates_id_and_timestamp:
  "(add s (new_TransactionRecord txn predicted) db = (Inr saved, db') \<longrightarrow>
      rec_id (new_TransactionRecord txn predicted) = None \<and>
      predicted_at (new_TransactionRecord txn predicted) = None \<and>
      rec_id saved = Some (id_seq db) \<and> predicted_at saved = Some (now s) \<and>
      from_orm saved = txn \<and> is_fraud saved = predicted \<and>
      (\<exists>row. rows db' = rows db @ [row] \<and> saved = load row)) \<and>
   (predict svc s request w = (Inr response, w') \<longrightarrow>
      (\<exists>row. rows (repo w') = rows (repo w) @ [row] \<and> row_id row = id_seq (repo w) \<and>
         row_predicted_at row = now s))"
proof (intro conjI impI)
  assume a: "add s (new_TransactionRecord txn predicted) db = (Inr saved, db')"
  from add_new_success[OF a] obtain row where
    r: "rows db' = rows db @ [row]" "saved = load row" "row_id row = id_seq db"
       "row_predicted_at row = now s" "row_is_fraud row = predicted" "Transaction.truncate row = txn"
    by blast
  show "rec_id (new_TransactionRecord txn predicted) = None" by simp
  show "predicted_at (new_TransactionRecord txn predicted) = None" by simp
  show "rec_id saved = Some (id_seq db)" using r by simp
  show "predicted_at saved = Some (now s)" using r by simp
  show "from_orm saved = txn" using r by simp
  show "is_fraud saved = predicted" using r by simp
  show "\<exists>row. rows db' = rows db @ [row] \<and> saved = load row" using r by blast
next
  assume p: "predict svc s request w = (Inr response, w')"
  obtain predicted0 saved where
    a: "add s (new_TransactionRecord (request_transaction request) predicted0) (repo w) = (Inr saved, repo w')"
    using predict_success[OF p] by blast
  from add_new_success[OF a]
  show "\<exists>row. rows (repo w') = rows (repo w) @ [row] \<and> row_id row = id_seq (repo w) \<and>
         row_predicted_at row = now s"
    by blast
qed

lemma scenario_add:
  "add (session_ok t) (new_TransactionRecord txn b) \<lparr>rows = [], id_seq = 1\<rparr> =
    (Inr (load (Transaction.extend txn (predicted_transactions.fields 1 b t))),
     \<lparr>rows = [Transaction.extend txn (predicted_transactions.fields 1 b t)], id_seq = 2\<rparr>)"
  by (simp add: add_def insert_row_new session_ok_def)

theorem store_generates_id_and_timestamp_witness:
  "add (session_ok 100) (new_TransactionRecord txn0 True) \<lparr>rows = [], id_seq = 1\<rparr> =
     (Inr (load (Transaction.extend txn0 (predicted_transactions.fields 1 True 100))),
      \<lparr>rows = [Transaction.extend txn0 (predicted_transactions.fields 1 True 100)], id_seq = 2\<rparr>) \<and>
   fst (predict (service_answering [1] field_names) (session_ok 100)
          \<lparr>request_transaction = txn0\<rparr> empty_world) =
     Inr \<lparr>transaction = txn0, predicted_fraud = True\<rparr> \<and>
   rec_id (new_TransactionRecord txn0 True) = None \<and>
   predicted_at (new_TransactionRecord txn0 True) = None \<and>
   rec_id (load (Transaction.extend txn0 (predicted_transactions.fields 1 True 100))) = Some 1 \<and>
   predicted_at (load (Transaction.extend txn0 (predicted_transactions.fields 1 True 100))) = Some 100 \<and>
   from_orm (load (Transaction.extend txn0 (predicted_transactions.fields 1 True 100))) = txn0 \<and>
   (\<exists>row. rows (repo (snd (predict (service_answering [1] field_names) (session_ok 100)
          \<lparr>request_transaction = txn0\<rparr> empty_world))) = [row] \<and>
      row_id row = 1 \<and> row_predicted_at row = 100)"
proof -
  let ?row = "Transaction.extend txn0 (predicted_transactions.fields 1 True 100)"
  let ?w = "\<lparr>repo = \<lparr>rows = [?row], id_seq = 2\<rparr>, calls = [pd_DataFrame [dict txn0] field_names]\<rparr>"
  have h: "add (session_ok 100) (new_TransactionRecord txn0 True) \<lparr>rows = [], id_seq = 1\<rparr> =
     (Inr (load ?row), \<lparr>rows = [?row], id_seq = 2\<rparr>)"
    by (rule scenario_add)
  have p: "predict (service_answering [1] field_names) (session_ok 100)
          \<lparr>request_transaction = txn0\<rparr> empty_world =
     (Inr \<lparr>transaction = txn0, predicted_fraud = True\<rparr>, ?w)"
    using scenario_predict[of 1 "[]" field_names 100 txn0] by simp
  from store_generates_id_and_timestamp[where s = "session_ok 100" and txn = txn0
      and predicted = True and db = "\<lparr>rows = [], id_seq = 1\<rparr>" and saved = "load ?row"
      and db' = "\<lparr>rows = [?row], id_seq = 2\<rparr>"
      and svc = "service_answering [1] field_names" and request = "\<lparr>request_transaction = txn0\<rparr>"
      and w = empty_world and response = "\<lparr>transaction = txn0, predicted_fraud = True\<rparr>" and w' = ?w]
    h p show ?thesis
    by (simp add: session_ok_def empty_world_def)
qed

section \<open>Projection of a missing column\<close>

text \<open>
  C2, as the code has it. A requested column that is not a field of the transaction does
  not make the projection fail: the frame has one row with a cell for every requested
  column, the cell of the missing column is \<open>NaN\<close>, the cell of every column that is a
  field is that field's value, and predict goes on to invoke the model on this frame.
\<close>

theorem missing_column_is_NaN:
  assumes "i < length (feature_cols svc)" and "feature_cols svc ! i \<notin> set field_names"
  shows "\<exists>row. data (pd_DataFrame [dict (request_transaction request)] (feature_cols svc)) = [row] \<and>
           length row = length (feature_cols svc) \<and> row ! i = NaN \<and>
           (\<forall>j < length (feature_cols svc). feature_cols svc ! j \<in> set field_names \<longrightarrow>
              Some (row ! j) = getattr (request_transaction request) (feature_cols svc ! j)) \<and>
           calls (snd (predict svc s request w)) =
             calls w @ [pd_DataFrame [dict (request_transaction request)] (feature_cols svc)]"
proof -
  let ?txn = "request_transaction request"
  let ?row = "map (\<lambda>col. case getattr ?txn col of Some v \<Rightarrow> v | None \<Rightarrow> NaN) (feature_cols svc)"
  have d: "data (pd_DataFrame [dict ?txn] (feature_cols svc)) = [?row]"
    by (simp add: pd_DataFrame_def map_of_dict)
  have n: "?row ! i = NaN"
    using assms by (simp add: getattr_no_field)
  have f: "Some (?row ! j) = getattr ?txn (feature_cols svc ! j)"
    if "j < length (feature_cols svc)" "feature_cols svc ! j \<in> set field_names" for j
    using that getattr_field[of "feature_cols svc ! j" ?txn] by auto
  show ?thesis using d n f predict_calls by auto
qed

theorem missing_column_is_NaN_witness:
  "(1::nat) < length (feature_cols (service_answering [0] [''amount'', ''merchant''])) \<and>
   feature_cols (service_answering [0] [''amount'', ''merchant'']) ! 1 \<notin> set field_names \<and>
   data (pd_DataFrame [dict txn0] [''amount'', ''merchant'']) = [[PyFloat 1234.56, NaN]]"
proof -
  have a: "(1::nat) < length (feature_cols (service_answering [0] [''amount'', ''merchant'']))"
    by (simp add: service_answering_def)
  have b: "feature_cols (service_answering [0] [''amount'', ''merchant'']) ! 1 \<notin> set field_names"
    by (simp add: service_answering_def field_names_def)
  have c: "data (pd_DataFrame [dict txn0] [''amount'', ''merchant'']) = [[PyFloat 1234.56, NaN]]"
    by (simp add: pd_DataFrame_def dict_def txn0_def)
  from missing_column_is_NaN[OF a b, of "\<lparr>request_transaction = txn0\<rparr>" "session_ok 100" empty_world]
    a b c show ?thesis by simp
qed

text \<open>
  C2 as stated fails: with the feature columns \<open>amount\<close> and \<open>merchant\<close>, of which the
  second is no field of a transaction, the frame holds \<open>NaN\<close> for it and predict returns a
  response; nothing is raised.
\<close>

theorem missing_column_no_error:
  "''merchant'' \<notin> set field_names \<and>
   data (pd_DataFrame [dict txn0] [''amount'', ''merchant'']) = [[PyFloat 1234.56, NaN]] \<and>
   fst (predict (service_answering [0] [''amount'', ''merchant'']) (session_ok 100)
          \<lparr>request_transaction = txn0\<rparr> empty_world) =
     Inr \<lparr>transaction = txn0, predicted_fraud = False\<rparr>"
  by (simp add: scenario_predict field_names_def pd_DataFrame_def dict_def txn0_def)

section \<open>Failures of the inference step\<close>




section \<open>predict: the failed call\<close>

text \<open>
  C4, as the code has it. When a step of predict fails, predict fails with the error of
  that step and returns no response. If the inference step fails (the model raises,
  returns nothing, or element 0 has no truth value), the repository is as it was. If the
  commit of the insert fails (before the server has run the INSERT, by the INSERT being
  refused for its key, or after the server has run it), the rows are as they were. If the commit goes through and the refresh
  that follows it raises, predict fails with the error of the refresh and the row of this
  transaction is in the table. A failed call never changes the rows in any other way.
\<close>

theorem predict_failure_effect:
  "((model svc (pd_DataFrame [dict (request_transaction request)] (feature_cols svc)) = Raises x \<and>
       e = ModelError x \<or>
     model svc (pd_DataFrame [dict (request_transaction request)] (feature_cols svc)) = Returns [] \<and>
       e = IndexError \<or>
     (\<exists>p rest. model svc (pd_DataFrame [dict (request_transaction request)] (feature_cols svc)) =
        Returns (p # rest) \<and> py_bool p = Inl e)) \<longrightarrow>
      fst (predict svc s request w) = Inl e \<and> repo (snd (predict svc s request w)) = repo w) \<and>
   (model svc (pd_DataFrame [dict (request_transaction request)] (feature_cols svc)) = Returns (p # rest) \<and>
    py_bool p = Inr predicted \<longrightarrow>
      (flush_error s = Some x \<longrightarrow>
         fst (predict svc s request w) = Inl (DBError x) \<and>
         repo (snd (predict svc s request w)) = repo w) \<and>
      (flush_error s = None \<and> id_seq (repo w) \<in> set (map row_id (rows (repo w))) \<longrightarrow>
         fst (predict svc s request w) = Inl IntegrityError \<and>
         rows (repo (snd (predict svc s request w))) = rows (repo w)) \<and>
      (flush_error s = None \<and> id_seq (repo w) \<notin> set (map row_id (rows (repo w))) \<and>
       commit_error s = Some x \<longrightarrow>
         fst (predict svc s request w) = Inl (DBError x) \<and>
         rows (repo (snd (predict svc s request w))) = rows (repo w)) \<and>
      (flush_error s = None \<and> id_seq (repo w) \<notin> set (map row_id (rows (repo w))) \<and>
       commit_error s = None \<and> refresh_error s = Some x \<longrightarrow>
         fst (predict svc s request w) = Inl (DBError x) \<and>
         rows (repo (snd (predict svc s request w))) =
           rows (repo w) @
             [Transaction.extend (request_transaction request)
                (predicted_transactions.fields (id_seq (repo w)) predicted (now s))])) \<and>
   (predict svc s request w = (Inl e', w') \<longrightarrow>
      rows (repo w') = rows (repo w) \<or>
      (\<exists>y row. flush_error s = None \<and> commit_error s = None \<and> refresh_error s = Some y \<and>
         e' = DBError y \<and> rows (repo w') = rows (repo w) @ [row] \<and>
         Transaction.truncate row = request_transaction request))"
proof (intro conjI impI)
  let ?df = "pd_DataFrame [dict (request_transaction request)] (feature_cols svc)"
  let ?txn = "request_transaction request"
  {
    assume "model svc ?df = Raises x \<and> e = ModelError x \<or>
       model svc ?df = Returns [] \<and> e = IndexError \<or>
       (\<exists>p rest. model svc ?df = Returns (p # rest) \<and> py_bool p = Inl e)"
    from predict_no_label[OF this, of s w]
    show "fst (predict svc s request w) = Inl e" "repo (snd (predict svc s request w)) = repo w"
      by simp_all
  }
  {
    assume l: "model svc ?df = Returns (p # rest) \<and> py_bool p = Inr predicted"
    then have m: "model svc ?df = Returns (p # rest)" and b: "py_bool p = Inr predicted" by simp_all
    obtain r db' where a: "add s (new_TransactionRecord ?txn predicted) (repo w) = (r, db')"
      by (cases "add s (new_TransactionRecord ?txn predicted) (repo w)")
    note pl = predict_label[OF m b a]
    {
      assume "flush_error s = Some x"
      then have "r = Inl (DBError x)" "db' = repo w" using a by (simp_all add: add_new_cases)
      then show "fst (predict svc s request w) = Inl (DBError x)"
        "repo (snd (predict svc s request w)) = repo w"
        using pl by simp_all
    }
    {
      assume "flush_error s = None \<and> id_seq (repo w) \<in> set (map row_id (rows (repo w)))"
      then have "(Inl IntegrityError, (repo w)\<lparr>id_seq := id_seq (repo w) + 1\<rparr>) = (r, db')"
        using a by (simp add: add_new_cases)
      then have "r = Inl IntegrityError" "db' = (repo w)\<lparr>id_seq := id_seq (repo w) + 1\<rparr>" by simp_all
      then show "fst (predict svc s request w) = Inl IntegrityError"
        "rows (repo (snd (predict svc s request w))) = rows (repo w)"
        using pl by simp_all
    }
    {
      assume "flush_error s = None \<and> id_seq (repo w) \<notin> set (map row_id (rows (repo w))) \<and>
        commit_error s = Some x"
      then have "(Inl (DBError x), (repo w)\<lparr>id_seq := id_seq (repo w) + 1\<rparr>) = (r, db')"
        using a by (simp add: add_new_cases)
      then have "r = Inl (DBError x)"
        "db' = (repo w)\<lparr>id_seq := id_seq (repo w) + 1\<rparr>" by simp_all
      then show "fst (predict svc s request w) = Inl (DBError x)"
        "rows (repo (snd (predict svc s request w))) = rows (repo w)"
        using pl by simp_all
    }
    {
      let ?row = "Transaction.extend ?txn (predicted_transactions.fields (id_seq (repo w)) predicted (now s))"
      assume "flush_error s = None \<and> id_seq (repo w) \<notin> set (map row_id (rows (repo w))) \<and>
        commit_error s = None \<and> refresh_error s = Some x"
      then have "(Inl (DBError x), (repo w)\<lparr>id_seq := id_seq (repo w) + 1, rows := rows (repo w) @ [?row]\<rparr>) = (r, db')"
        using a by (simp add: add_new_cases)
      then have "r = Inl (DBError x)"
        "db' = (repo w)\<lparr>id_seq := id_seq (repo w) + 1, rows := rows (repo w) @ [?row]\<rparr>" by simp_all
      then show "fst (predict svc s request w) = Inl (DBError x)"
        "rows (repo (snd (predict svc s request w))) = rows (repo w) @ [?row]"
        using pl by simp_all
    }
  }
  {
    assume f: "predict svc s request w = (Inl e', w')"
    show "rows (repo w') = rows (repo w) \<or>
      (\<exists>y row. flush_error s = None \<and> commit_error s = None \<and> refresh_error s = Some y \<and>
         e' = DBError y \<and> rows (repo w') = rows (repo w) @ [row] \<and>
         Transaction.truncate row = ?txn)"
    proof (cases "model svc ?df" rule: inference_outcomes)
      case (raises x')
      then have "repo (snd (predict svc s request w)) = repo w"
        using predict_no_label[of svc request x' "ModelError x'" s w] by simp
      then show ?thesis by (simp add: f)
    next
      case empty
      then have "repo (snd (predict svc s request w)) = repo w"
        using predict_no_label[of svc request "[]" IndexError s w] by simp
      then show ?thesis by (simp add: f)
    next
      case (no_truth p' rest' e0)
      then have "predict svc s request w = (Inl e0, w\<lparr>calls := calls w @ [?df]\<rparr>)"
        by (intro predict_no_label) blast
      then have "repo (snd (predict svc s request w)) = repo w" by simp
      then show ?thesis by (simp add: f)
    next
      case (label p' rest' predicted')
      let ?row = "Transaction.extend ?txn (predicted_transactions.fields (id_seq (repo w)) predicted' (now s))"
      obtain r db' where a: "add s (new_TransactionRecord ?txn predicted') (repo w) = (r, db')"
        by (cases "add s (new_TransactionRecord ?txn predicted') (repo w)")
      from predict_label[OF label a] f have r: "r = Inl e'" and w': "repo w' = db'"
        by (cases r; auto)+
      show ?thesis
      proof (cases "flush_error s = None \<and> id_seq (repo w) \<notin> set (map row_id (rows (repo w))) \<and>
          commit_error s = None")
        case True
        then obtain y where y: "refresh_error s = Some y"
          using a r by (cases "refresh_error s") (simp_all add: add_new_cases)
        have "(Inl (DBError y), (repo w)\<lparr>id_seq := id_seq (repo w) + 1, rows := rows (repo w) @ [?row]\<rparr>) = (r, db')"
          using a True y by (simp add: add_new_cases)
        then have "r = Inl (DBError y)"
          "db' = (repo w)\<lparr>id_seq := id_seq (repo w) + 1, rows := rows (repo w) @ [?row]\<rparr>" by simp_all
        then have "e' = DBError y" "rows (repo w') = rows (repo w) @ [?row]"
          using r w' by simp_all
        moreover have "Transaction.truncate ?row = ?txn" by simp
        ultimately show ?thesis using True y by blast
      next
        case False
        have "rows db' = rows (repo w)"
        proof (cases "flush_error s")
          case (Some y)
          then show ?thesis using a by (simp add: add_new_cases)
        next
          case None
          show ?thesis
          proof (cases "id_seq (repo w) \<in> set (map row_id (rows (repo w)))")
            case True
            then have "(Inl IntegrityError, (repo w)\<lparr>id_seq := id_seq (repo w) + 1\<rparr>) = (r, db')"
              using a None by (simp add: add_new_cases)
            then have "db' = (repo w)\<lparr>id_seq := id_seq (repo w) + 1\<rparr>" by simp
            then show ?thesis by simp
          next
            case fresh: False
            then obtain y where y: "commit_error s = Some y" using False None by auto
            then have "(Inl (DBError y), (repo w)\<lparr>id_seq := id_seq (repo w) + 1\<rparr>) = (r, db')"
              using a None fresh by (simp add: add_new_cases)
            then have "db' = (repo w)\<lparr>id_seq := id_seq (repo w) + 1\<rparr>" by simp
            then show ?thesis by simp
          qed
        qed
        then show ?thesis using w' by simp
      qed
    qed
  }
qed

lemma scenario_refresh_fails:
  "predict (service_answering [0] field_names) ((session_ok 100)\<lparr>refresh_error := Some ''connection lost''\<rparr>)
     \<lparr>request_transaction = txn0\<rparr> empty_world =
   (Inl (DBError ''connection lost''),
    \<lparr>repo = \<lparr>rows = [Transaction.extend txn0 (predicted_transactions.fields 1 False 100)], id_seq = 2\<rparr>,
     calls = [pd_DataFrame [dict txn0] field_names]\<rparr>)"
proof -
  have m: "model (service_answering [0] field_names)
      (pd_DataFrame [dict (request_transaction \<lparr>request_transaction = txn0\<rparr>)]
         (feature_cols (service_answering [0] field_names))) = Returns (Scalar 0 # [])"
    by (simp add: service_answering_def)
  have b: "py_bool (Scalar 0) = Inr False" by simp
  have a: "add ((session_ok 100)\<lparr>refresh_error := Some ''connection lost''\<rparr>)
      (new_TransactionRecord (request_transaction \<lparr>request_transaction = txn0\<rparr>) False)
      (repo empty_world) =
      (Inl (DBError ''connection lost''),
       \<lparr>rows = [Transaction.extend txn0 (predicted_transactions.fields 1 False 100)], id_seq = 2\<rparr>)"
    by (simp add: add_new_cases session_ok_def empty_world_def)
  from predict_label[OF m b a] show ?thesis
    by (simp add: empty_world_def service_answering_def)
qed

theorem predict_failure_effect_witness:
  "model (service_answering [0] field_names) (pd_DataFrame [dict txn0] field_names) = Returns [Scalar 0] \<and>
   py_bool (Scalar 0) = Inr False \<and>
   id_seq (repo empty_world) \<notin> set (map row_id (rows (repo empty_world))) \<and>
   fst (predict (service_answering [0] field_names)
          ((session_ok 100)\<lparr>refresh_error := Some ''connection lost''\<rparr>)
          \<lparr>request_transaction = txn0\<rparr> empty_world) = Inl (DBError ''connection lost'') \<and>
   rows (repo (snd (predict (service_answering [0] field_names)
          ((session_ok 100)\<lparr>refresh_error := Some ''connection lost''\<rparr>)
          \<lparr>request_transaction = txn0\<rparr> empty_world))) =
     [Transaction.extend txn0 (predicted_transactions.fields 1 False 100)] \<and>
   fst (predict (service_answering [0] field_names)
          ((session_ok 100)\<lparr>commit_error := Some ''commit failed''\<rparr>)
          \<lparr>request_transaction = txn0\<rparr> empty_world) = Inl (DBError ''commit failed'') \<and>
   rows (repo (snd (predict (service_answering [0] field_names)
          ((session_ok 100)\<lparr>commit_error := Some ''commit failed''\<rparr>)
          \<lparr>request_transaction = txn0\<rparr> empty_world))) = []"
proof -
  let ?svc = "service_answering [0] field_names"
  let ?req = "\<lparr>request_transaction = txn0\<rparr>"
  let ?s1 = "(session_ok 100)\<lparr>refresh_error := Some ''connection lost''\<rparr>"
  let ?s2 = "(session_ok 100)\<lparr>commit_error := Some ''commit failed''\<rparr>"
  have m: "model ?svc (pd_DataFrame [dict txn0] field_names) = Returns [Scalar 0]"
    by (simp add: service_answering_def)
  have m': "model ?svc (pd_DataFrame [dict (request_transaction ?req)] (feature_cols ?svc)) =
      Returns (Scalar 0 # [])"
    by (simp add: service_answering_def)
  have b: "py_bool (Scalar 0) = Inr False" by simp
  have f: "id_seq (repo empty_world) \<notin> set (map row_id (rows (repo empty_world)))"
    by (simp add: empty_world_def)
  have s1: "flush_error ?s1 = None" "commit_error ?s1 = None" "refresh_error ?s1 = Some ''connection lost''"
    "now ?s1 = 100"
    by (simp_all add: session_ok_def)
  have s2: "flush_error ?s2 = None" "commit_error ?s2 = Some ''commit failed''"
    by (simp_all add: session_ok_def)
  have e: "rows (repo empty_world) = []" "id_seq (repo empty_world) = 1" by (simp_all add: empty_world_def)
  have 1: "fst (predict ?svc ?s1 ?req empty_world) = Inl (DBError ''connection lost'') \<and>
      rows (repo (snd (predict ?svc ?s1 ?req empty_world))) =
        [Transaction.extend txn0 (predicted_transactions.fields 1 False 100)]"
    using predict_failure_effect[where svc = ?svc and request = ?req and s = ?s1 and w = empty_world
        and p = "Scalar 0" and rest = "[]" and predicted = False and x = "''connection lost''"]
      m' b f s1 e
    by simp
  have 2: "fst (predict ?svc ?s2 ?req empty_world) = Inl (DBError ''commit failed'') \<and>
      rows (repo (snd (predict ?svc ?s2 ?req empty_world))) = []"
    using predict_failure_effect[where svc = ?svc and request = ?req and s = ?s2 and w = empty_world
        and p = "Scalar 0" and rest = "[]" and predicted = False and x = "''commit failed''"]
      m' b f s2 e
    by simp
  from m b f 1 2 show ?thesis by (intro conjI) simp_all
qed

text \<open>
  C4 as stated fails: the commit goes through, the refresh after it raises; predict fails
  with that error, and the store, empty before the call, holds the row.
\<close>

theorem refresh_failure_keeps_row:
  "rows (repo empty_world) = [] \<and>
   fst (predict (service_answering [0] field_names)
          ((session_ok 100)\<lparr>refresh_error := Some ''connection lost''\<rparr>)
          \<lparr>request_transaction = txn0\<rparr> empty_world) = Inl (DBError ''connection lost'') \<and>
   rows (repo (snd (predict (service_answering [0] field_names)
          ((session_ok 100)\<lparr>refresh_error := Some ''connection lost''\<rparr>)
          \<lparr>request_transaction = txn0\<rparr> empty_world))) =
     [Transaction.extend txn0 (predicted_transactions.fields 1 False 100)]"
proof -
  have "rows (repo empty_world) = []" by (simp add: empty_world_def)
  then show ?thesis by (simp add: scenario_refresh_fails)
qed

section \<open>The listing: order and idempotence\<close>

lemma stored_fields [simp]:
  "row_id (stored i b t) = i" "row_is_fraud (stored i b t) = b" "row_predicted_at (stored i b t) = t"
  "Transaction.truncate (stored i b t) = txn0"
  by (simp_all add: stored_def)

text \<open>
  C3. A \<open>list_all\<close> whose query does not raise returns one record for every row of the
  table, each row once: the record has the row's \<open>id\<close>, \<open>predicted_at\<close>, \<open>is_fraud\<close> and
  transaction fields. The records are in an order in which their \<open>predicted_at\<close> never
  increases (latest first). When the table holds three rows with times t1 < t2 < t3, the
  result is the record of the row of t3, then that of t2, then that of t1, wherever the
  engine keeps the rows.
\<close>

theorem list_all_newest_first:
  assumes "exec_error s = None"
  shows "\<exists>recs rs ts. list_all_repo s db = Inr recs \<and> mset rs = mset (rows db) \<and>
           map rec_id recs = map (\<lambda>r. Some (row_id r)) rs \<and>
           map predicted_at recs = map (\<lambda>r. Some (row_predicted_at r)) rs \<and>
           map is_fraud recs = map row_is_fraud rs \<and>
           map Transaction.truncate recs = map Transaction.truncate rs \<and>
           map predicted_at recs = map Some ts \<and> sorted_wrt (\<lambda>a b. b \<le> a) ts \<and>
           (\<forall>r1 r2 r3. mset (rows db) = {#r1, r2, r3#} \<and>
              row_predicted_at r1 < row_predicted_at r2 \<and> row_predicted_at r2 < row_predicted_at r3 \<longrightarrow>
              rs = [r3, r2, r1] \<and>
              map rec_id recs = [Some (row_id r3), Some (row_id r2), Some (row_id r1)] \<and>
              map predicted_at recs =
                [Some (row_predicted_at r3), Some (row_predicted_at r2), Some (row_predicted_at r1)])"
proof -
  let ?rs = "order_by_predicted_at_desc (scan s (rows db))"
  let ?recs = "map load ?rs"
  let ?ts = "map row_predicted_at ?rs"
  have l: "list_all_repo s db = Inr ?recs" using assms by (simp add: list_all_repo_def)
  have m: "mset ?rs = mset (rows db)" by simp
  have o: "sorted_wrt (\<lambda>a b. row_predicted_at b \<le> row_predicted_at a) ?rs" by (rule sorted_order_by)
  have i: "map rec_id ?recs = map (\<lambda>r. Some (row_id r)) ?rs" by simp
  have p: "map predicted_at ?recs = map (\<lambda>r. Some (row_predicted_at r)) ?rs" by simp
  have f: "map is_fraud ?recs = map row_is_fraud ?rs" by simp
  have t: "map Transaction.truncate ?recs = map Transaction.truncate ?rs" by simp
  have p': "map predicted_at ?recs = map Some ?ts" by simp
  have o': "sorted_wrt (\<lambda>a b. b \<le> a) ?ts" using o by (simp add: sorted_wrt_map)
  have u: "?rs = [r3, r2, r1] \<and>
      map rec_id ?recs = [Some (row_id r3), Some (row_id r2), Some (row_id r1)] \<and>
      map predicted_at ?recs =
        [Some (row_predicted_at r3), Some (row_predicted_at r2), Some (row_predicted_at r1)]"
    if "mset (rows db) = {#r1, r2, r3#} \<and>
       row_predicted_at r1 < row_predicted_at r2 \<and> row_predicted_at r2 < row_predicted_at r3" for r1 r2 r3
  proof -
    have "?rs = [r3, r2, r1]"
    proof (rule desc_sorted_unique[OF o])
      show "sorted_wrt (\<lambda>a b. row_predicted_at b < row_predicted_at a) [r3, r2, r1]"
        using that by simp
      show "mset ?rs = mset [r3, r2, r1]" using m that by (simp add: add_mset_commute)
    qed
    then show ?thesis by simp
  qed
  show ?thesis
    apply (rule exI[of _ ?recs], rule exI[of _ ?rs], rule exI[of _ ?ts])
    using l m i p f t p' o' u by blast
qed

theorem list_all_newest_first_witness:
  "exec_error (session_ok 0) = None \<and>
   (\<exists>recs. list_all_repo (session_ok 0)
       \<lparr>rows = [stored 2 False 20, stored 3 True 30, stored 1 False 10], id_seq = 4\<rparr> = Inr recs \<and>
      map rec_id recs = [Some 3, Some 2, Some 1] \<and>
      map predicted_at recs = [Some 30, Some 20, Some 10])"
proof -
  let ?db = "\<lparr>rows = [stored 2 False 20, stored 3 True 30, stored 1 False 10], id_seq = 4\<rparr>"
  have e: "exec_error (session_ok 0) = None" by (simp add: session_ok_def)
  have h: "mset (rows ?db) = {#stored 1 False 10, stored 2 False 20, stored 3 True 30#} \<and>
      row_predicted_at (stored 1 False 10) < row_predicted_at (stored 2 False 20) \<and>
      row_predicted_at (stored 2 False 20) < row_predicted_at (stored 3 True 30)"
    by (simp add: add_mset_commute)
  from list_all_newest_first[OF e, of ?db] obtain recs rs ts where
    all: "list_all_repo (session_ok 0) ?db = Inr recs \<and> mset rs = mset (rows ?db) \<and>
           map rec_id recs = map (\<lambda>r. Some (row_id r)) rs \<and>
           map predicted_at recs = map (\<lambda>r. Some (row_predicted_at r)) rs \<and>
           map is_fraud recs = map row_is_fraud rs \<and>
           map Transaction.truncate recs = map Transaction.truncate rs \<and>
           map predicted_at recs = map Some ts \<and> sorted_wrt (\<lambda>a b. b \<le> a) ts \<and>
           (\<forall>r1 r2 r3. mset (rows ?db) = {#r1, r2, r3#} \<and>
              row_predicted_at r1 < row_predicted_at r2 \<and> row_predicted_at r2 < row_predicted_at r3 \<longrightarrow>
              rs = [r3, r2, r1] \<and>
              map rec_id recs = [Some (row_id r3), Some (row_id r2), Some (row_id r1)] \<and>
              map predicted_at recs =
                [Some (row_predicted_at r3), Some (row_predicted_at r2), Some (row_predicted_at r1)])"
    by (elim exE) (rule that)
  from all have l: "list_all_repo (session_ok 0) ?db = Inr recs" by (elim conjE)
  from all have
    u: "\<forall>r1 r2 r3. mset (rows ?db) = {#r1, r2, r3#} \<and>
              row_predicted_at r1 < row_predicted_at r2 \<and> row_predicted_at r2 < row_predicted_at r3 \<longrightarrow>
              rs = [r3, r2, r1] \<and>
              map rec_id recs = [Some (row_id r3), Some (row_id r2), Some (row_id r1)] \<and>
              map predicted_at recs =
                [Some (row_predicted_at r3), Some (row_predicted_at r2), Some (row_predicted_at r1)]"
    by (elim conjE)
  from u[rule_format, of "stored 1 False 10" "stored 2 False 20" "stored 3 True 30", OF h]
  have "map rec_id recs =
      [Some (row_id (stored 3 True 30)), Some (row_id (stored 2 False 20)), Some (row_id (stored 1 False 10))] \<and>
    map predicted_at recs =
      [Some (row_predicted_at (stored 3 True 30)), Some (row_predicted_at (stored 2 False 20)),
       Some (row_predicted_at (stored 1 False 10))]"
    by (elim conjE) (intro conjI)
  then have "map rec_id recs = [Some 3, Some 2, Some 1] \<and>
      map predicted_at recs = [Some 30, Some 20, Some 10]"
    by simp
  with l have "list_all_repo (session_ok 0) ?db = Inr recs \<and>
      map rec_id recs = [Some 3, Some 2, Some 1] \<and>
      map predicted_at recs = [Some 30, Some 20, Some 10]"
    by (intro conjI) (elim conjE, assumption)+
  then have "\<exists>recs. list_all_repo (session_ok 0) ?db = Inr recs \<and>
      map rec_id recs = [Some 3, Some 2, Some 1] \<and>
      map predicted_at recs = [Some 30, Some 20, Some 10]"
    by (rule exI)
  with e show ?thesis by (intro conjI)
qed

text \<open>
  C10. With the primary key in force, \<open>get_frauds\<close> returns a dict whose entries are in
  the order of the records \<open>list_all\<close> returned: the keys, in enumeration order, are the
  ids of those records, the values are their responses, and so the entries run from the
  latest \<open>predicted_at\<close> to the earliest.
\<close>

theorem listing_keeps_order:
  assumes "primary_key_ok (repo w)" and "list_all_repo s (repo w) = Inr db_rows"
  shows "\<exists>d. get_frauds s w = Inr d \<and>
           map (\<lambda>(k, v). Some k) d = map rec_id db_rows \<and>
           map snd d = map (\<lambda>rec. \<lparr>transaction = from_orm rec, predicted_fraud = is_fraud rec\<rparr>) db_rows \<and>
           (\<exists>rs. d = map entry rs \<and> db_rows = map load rs \<and>
              sorted_wrt (\<lambda>a b. row_predicted_at b \<le> row_predicted_at a) rs)"
proof -
  let ?rs = "order_by_predicted_at_desc (scan s (rows (repo w)))"
  have e: "exec_error s = None"
    using assms(2) by (cases "exec_error s") (simp_all add: list_all_repo_def)
  then have r: "db_rows = map load ?rs" using assms(2) by (simp add: list_all_repo_def)
  have g: "get_frauds s w = Inr (map entry ?rs)" using get_frauds_entries[OF assms(1) e] .
  have k: "map (\<lambda>(k, v). Some k) (map entry ?rs) = map rec_id db_rows"
    by (simp add: r entry_def comp_def)
  have v: "map snd (map entry ?rs) =
      map (\<lambda>rec. \<lparr>transaction = from_orm rec, predicted_fraud = is_fraud rec\<rparr>) db_rows"
    by (simp add: r entry_def comp_def)
  show ?thesis using g k v r sorted_order_by by blast
qed

theorem listing_keeps_order_witness:
  "primary_key_ok (repo \<lparr>repo = \<lparr>rows = [stored 1 False 50, stored 2 True 60], id_seq = 3\<rparr>, calls = []\<rparr>) \<and>
   list_all_repo (session_ok 0) (repo \<lparr>repo = \<lparr>rows = [stored 1 False 50, stored 2 True 60], id_seq = 3\<rparr>, calls = []\<rparr>) =
     Inr [load (stored 2 True 60), load (stored 1 False 50)] \<and>
   (\<exists>d. get_frauds (session_ok 0) \<lparr>repo = \<lparr>rows = [stored 1 False 50, stored 2 True 60], id_seq = 3\<rparr>, calls = []\<rparr> = Inr d \<and>
      map (\<lambda>(k, v). Some k) d = [Some 2, Some 1] \<and>
      map snd d = [\<lparr>transaction = txn0, predicted_fraud = True\<rparr>, \<lparr>transaction = txn0, predicted_fraud = False\<rparr>])"
proof -
  let ?w = "\<lparr>repo = \<lparr>rows = [stored 1 False 50, stored 2 True 60], id_seq = 3\<rparr>, calls = []\<rparr>"
  have pk: "primary_key_ok (repo ?w)" by (simp add: primary_key_ok_def)
  have l: "list_all_repo (session_ok 0) (repo ?w) = Inr [load (stored 2 True 60), load (stored 1 False 50)]"
    by (simp add: list_all_repo_def session_ok_def scan_def order_by_predicted_at_desc_def)
  from listing_keeps_order[OF pk l] obtain d where
    g: "get_frauds (session_ok 0) ?w = Inr d" and
    k: "map (\<lambda>(k, v). Some k) d = map rec_id [load (stored 2 True 60), load (stored 1 False 50)]" and
    v: "map snd d = map (\<lambda>rec. \<lparr>transaction = from_orm rec, predicted_fraud = is_fraud rec\<rparr>)
          [load (stored 2 True 60), load (stored 1 False 50)]"
    by blast
  have k': "map (\<lambda>(k, v). Some k) d = [Some 2, Some 1]" using k by simp
  have v': "map snd d =
      [\<lparr>transaction = txn0, predicted_fraud = True\<rparr>, \<lparr>transaction = txn0, predicted_fraud = False\<rparr>]"
    using v by simp
  have "\<exists>d. get_frauds (session_ok 0) ?w = Inr d \<and>
      map (\<lambda>(k, v). Some k) d = [Some 2, Some 1] \<and>
      map snd d = [\<lparr>transaction = txn0, predicted_fraud = True\<rparr>, \<lparr>transaction = txn0, predicted_fraud = False\<rparr>]"
    by (rule exI[of _ d]) (simp only: g k' v' simp_thms)
  with pk l show ?thesis by (intro conjI)
qed

text \<open>
  C9. With the primary key in force, two calls of \<open>get_frauds\<close> on the same store that
  both return give the same entries: the same ids mapped to the same responses, whatever
  order the engine chose among rows of equal time in either call.
\<close>

theorem retrieval_idempotent:
  assumes "primary_key_ok (repo w)" and "get_frauds s1 w = Inr d1" and "get_frauds s2 w = Inr d2"
  shows "mset d1 = mset d2 \<and> set d1 = set d2 \<and> map_of d1 = map_of d2"
proof -
  have d1: "d1 = map entry (order_by_predicted_at_desc (scan s1 (rows (repo w))))"
    using get_frauds_entries[OF assms(1) get_frauds_Inr_exec[OF assms(2)]] assms(2) by simp
  have d2: "d2 = map entry (order_by_predicted_at_desc (scan s2 (rows (repo w))))"
    using get_frauds_entries[OF assms(1) get_frauds_Inr_exec[OF assms(3)]] assms(3) by simp
  have m: "mset d1 = mset d2" by (simp add: d1 d2)
  then have s: "set d1 = set d2" by (rule mset_eq_setD)
  have "mset (map fst d1) = mset (map row_id (rows (repo w)))"
    by (simp add: d1 entry_def comp_def)
  then have k1: "distinct (map fst d1)"
    using assms(1) unfolding primary_key_ok_def by (metis mset_eq_imp_distinct_iff)
  have "mset (map fst d2) = mset (map fst d1)" using m by (metis mset_map)
  then have k2: "distinct (map fst d2)" using k1 by (metis mset_eq_imp_distinct_iff)
  have "map_of d1 = map_of d2" using k1 k2 s by (simp add: map_of_inject_set)
  then show ?thesis using m s by simp
qed

theorem retrieval_idempotent_witness:
  "primary_key_ok (repo \<lparr>repo = \<lparr>rows = [stored 1 False 50, stored 2 True 50], id_seq = 3\<rparr>, calls = []\<rparr>) \<and>
   get_frauds (session_ok 0) \<lparr>repo = \<lparr>rows = [stored 1 False 50, stored 2 True 50], id_seq = 3\<rparr>, calls = []\<rparr> =
     Inr [entry (stored 1 False 50), entry (stored 2 True 50)] \<and>
   get_frauds session_other_scan \<lparr>repo = \<lparr>rows = [stored 1 False 50, stored 2 True 50], id_seq = 3\<rparr>, calls = []\<rparr> =
     Inr [entry (stored 2 True 50), entry (stored 1 False 50)] \<and>
   set [entry (stored 1 False 50), entry (stored 2 True 50)] =
     set [entry (stored 2 True 50), entry (stored 1 False 50)] \<and>
   map_of [entry (stored 1 False 50), entry (stored 2 True 50)] =
     map_of [entry (stored 2 True 50), entry (stored 1 False 50)]"
proof -
  let ?w = "\<lparr>repo = \<lparr>rows = [stored 1 False 50, stored 2 True 50], id_seq = 3\<rparr>, calls = []\<rparr>"
  have pk: "primary_key_ok (repo ?w)" by (simp add: primary_key_ok_def)
  have e1: "exec_error (session_ok 0) = None" by (simp add: session_ok_def)
  have e2: "exec_error session_other_scan = None" by (simp add: session_other_scan_def session_ok_def)
  have g1: "get_frauds (session_ok 0) ?w = Inr [entry (stored 1 False 50), entry (stored 2 True 50)]"
    using get_frauds_entries[OF pk e1]
    by (simp add: session_ok_def scan_def order_by_predicted_at_desc_def)
  have g2: "get_frauds session_other_scan ?w = Inr [entry (stored 2 True 50), entry (stored 1 False 50)]"
    using get_frauds_entries[OF pk e2]
    by (simp add: session_other_scan_def session_ok_def scan_def order_by_predicted_at_desc_def)
  from retrieval_idempotent[OF pk g1 g2] pk g1 g2 show ?thesis
    by simp
qed

section \<open>A sequence of predict calls, then the listing\<close>

text \<open>
  C6. After N predict calls made one after the other on a store that was empty, all of
  which succeeded, a \<open>get_frauds\<close> whose query does not raise returns a dict with exactly
  N entries; its keys are the ids of the stored rows, and no two of them are equal.
\<close>

theorem predicts_listing_count:
  assumes "rows (repo w) = []" and "predicts svc cs w = (rs, w')"
    and "\<forall>r \<in> set rs. \<exists>response. r = Inr response" and "exec_error s = None"
  shows "\<exists>d. get_frauds s w' = Inr d \<and> length d = length cs \<and> distinct (map fst d) \<and>
           mset (map fst d) = mset (map row_id (rows (repo w')))"
proof -
  let ?rs = "order_by_predicted_at_desc (scan s (rows (repo w')))"
  have pk0: "primary_key_ok (repo w)" using assms(1) by (simp add: primary_key_ok_def)
  from predicts_rows[OF pk0 assms(2) assms(3)] assms(1)
  have pk: "primary_key_ok (repo w')" and len: "length (rows (repo w')) = length cs"
    by simp_all
  have g: "get_frauds s w' = Inr (map entry ?rs)" using get_frauds_entries[OF pk assms(4)] .
  have k: "map fst (map entry ?rs) = map row_id ?rs" by (simp add: entry_def comp_def)
  have m: "mset (map row_id ?rs) = mset (map row_id (rows (repo w')))" by simp
  then have d: "distinct (map row_id ?rs)"
    using pk unfolding primary_key_ok_def by (metis mset_eq_imp_distinct_iff)
  have "length ?rs = length (rows (repo w'))"
    using mset_order_by mset_scan by (metis size_mset)
  then have l: "length (map entry ?rs) = length cs" using len by simp
  have d': "distinct (map fst (map entry ?rs))" using d by (simp only: k)
  have m': "mset (map fst (map entry ?rs)) = mset (map row_id (rows (repo w')))"
    using m by (simp only: k)
  show ?thesis using g l d' m' by (intro exI[of _ "map entry ?rs"] conjI)
qed

lemma scenario_two_predicts:
  "predicts (service_answering [1] field_names)
     [(session_ok 10, \<lparr>request_transaction = txn0\<rparr>), (session_ok 20, \<lparr>request_transaction = txn0\<rparr>)]
     empty_world =
   ([Inr \<lparr>transaction = txn0, predicted_fraud = True\<rparr>, Inr \<lparr>transaction = txn0, predicted_fraud = True\<rparr>],
    \<lparr>repo = \<lparr>rows = [stored 1 True 10, stored 2 True 20], id_seq = 3\<rparr>,
     calls = [pd_DataFrame [dict txn0] field_names, pd_DataFrame [dict txn0] field_names]\<rparr>)"
proof -
  let ?svc = "service_answering [1] field_names"
  let ?req = "\<lparr>request_transaction = txn0\<rparr>"
  let ?w1 = "\<lparr>repo = \<lparr>rows = [stored 1 True 10], id_seq = 2\<rparr>,
      calls = [pd_DataFrame [dict txn0] field_names]\<rparr>"
  have p1: "predict ?svc (session_ok 10) ?req empty_world =
      (Inr \<lparr>transaction = txn0, predicted_fraud = True\<rparr>, ?w1)"
    using scenario_predict[of 1 "[]" field_names 10 txn0] by (simp add: stored_def)
  have m: "model ?svc (pd_DataFrame [dict (request_transaction ?req)] (feature_cols ?svc)) =
      Returns (Scalar 1 # [])"
    by (simp add: service_answering_def)
  have b: "py_bool (Scalar 1) = Inr True" by simp
  have c: "flush_error (session_ok 20) = None" "commit_error (session_ok 20) = None"
    "refresh_error (session_ok 20) = None"
    by (simp_all add: session_ok_def)
  have f: "id_seq (repo ?w1) \<notin> set (map row_id (rows (repo ?w1)))" by simp
  have p2: "predict ?svc (session_ok 20) ?req ?w1 =
      (Inr \<lparr>transaction = txn0, predicted_fraud = True\<rparr>,
       \<lparr>repo = \<lparr>rows = [stored 1 True 10, stored 2 True 20], id_seq = 3\<rparr>,
        calls = [pd_DataFrame [dict txn0] field_names, pd_DataFrame [dict txn0] field_names]\<rparr>)"
    using predict_ok[OF m b c f] by (simp add: stored_def session_ok_def service_answering_def)
  show ?thesis by (simp add: p1 p2)
qed

theorem predicts_listing_count_witness:
  "rows (repo empty_world) = [] \<and>
   predicts (service_answering [1] field_names)
     [(session_ok 10, \<lparr>request_transaction = txn0\<rparr>), (session_ok 20, \<lparr>request_transaction = txn0\<rparr>)]
     empty_world =
   ([Inr \<lparr>transaction = txn0, predicted_fraud = True\<rparr>, Inr \<lparr>transaction = txn0, predicted_fraud = True\<rparr>],
    \<lparr>repo = \<lparr>rows = [stored 1 True 10, stored 2 True 20], id_seq = 3\<rparr>,
     calls = [pd_DataFrame [dict txn0] field_names, pd_DataFrame [dict txn0] field_names]\<rparr>) \<and>
   exec_error (session_ok 0) = None \<and>
   (\<exists>d. get_frauds (session_ok 0)
          \<lparr>repo = \<lparr>rows = [stored 1 True 10, stored 2 True 20], id_seq = 3\<rparr>,
           calls = [pd_DataFrame [dict txn0] field_names, pd_DataFrame [dict txn0] field_names]\<rparr> = Inr d \<and>
      length d = 2 \<and> distinct (map fst d) \<and> mset (map fst d) = {#1, 2#})"
proof -
  let ?w2 = "\<lparr>repo = \<lparr>rows = [stored 1 True 10, stored 2 True 20], id_seq = 3\<rparr>,
     calls = [pd_DataFrame [dict txn0] field_names, pd_DataFrame [dict txn0] field_names]\<rparr>"
  have e: "rows (repo empty_world) = []" by (simp add: empty_world_def)
  have ok: "\<forall>r \<in> set [Inr \<lparr>transaction = txn0, predicted_fraud = True\<rparr>,
                        Inr \<lparr>transaction = txn0, predicted_fraud = True\<rparr>].
              \<exists>response. r = (Inr response :: error + TransactionAPIResponse)"
    by simp
  have x: "exec_error (session_ok 0) = None" by (simp add: session_ok_def)
  from predicts_listing_count[OF e scenario_two_predicts ok x] obtain d where
    d: "get_frauds (session_ok 0) ?w2 = Inr d" "length d = 2" "distinct (map fst d)"
       "mset (map fst d) = mset (map row_id (rows (repo ?w2)))"
    by auto
  have "mset (map fst d) = {#1, 2#}" using d(4) by (simp add: add_mset_commute)
  then have "\<exists>d. get_frauds (session_ok 0) ?w2 = Inr d \<and>
      length d = 2 \<and> distinct (map fst d) \<and> mset (map fst d) = {#1, 2#}"
    using d(1,2,3) by (intro exI[of _ d]) simp
  with e scenario_two_predicts x show ?thesis by (intro conjI)
qed

end
